theory Spec2Isabelle
  imports Complex_Main
begin

section \<open>Batch rendering of AFM scan files: a model of plot\_spm\_folder.py\<close>

text \<open>
  The script lists the working directory, loads every file ending in \<open>.gwy\<close>, and for
  each data channel named in the table \<open>params\<close> scales the samples, draws them with a
  colorbar and a scale bar, and saves one PNG. The model below follows the script line
  by line. Samples are \<open>float64\<close> in the script and real numbers here: rounding, infinities
  and NaN are outside the model. For that reason no theorem below states the value that the
  arithmetic of the script gives a sample; the theorems are about which operations are
  applied, to which channels, which effects take place and in which order.
  Everything the script does to the outside (the console, the
  file system, pyplot's registry of open figures) is a field of an explicit state; what the
  outside answers (the directory listing, the parser, a failing write) is a field of an
  environment.
\<close>

subsection \<open>Data\<close>

text \<open>A data field as \<open>gwyfile\<close> returns it: the samples row by row and the physical size.\<close>

record channel =
  chan_data :: "real list list"
  xreal :: real
  yreal :: real

text \<open>One entry of the dictionary \<open>params\<close>.\<close>

record chan_params =
  cmap :: string
  datascale :: real
  label :: string

text \<open>The dictionary literal \<open>params\<close>, in the order of the source.\<close>

definition params :: "(string \<times> chan_params) list" where
  "params =
    [(''ZSensor'', \<lparr>cmap = ''afmhot'', datascale = 1000000000, label = ''Height [nm]''\<rparr>),
     (''Peak Force Error'', \<lparr>cmap = ''gray'', datascale = 1000, label = ''Peak Force [mV]''\<rparr>),
     (''Potential'', \<lparr>cmap = ''inferno'', datascale = 1, label = ''Potential [V]''\<rparr>)]"

text \<open>Exceptions that leave \<open>process_gwy_files\<close>: numpy's \<open>ValueError\<close> on the minimum of an
  array without elements, and whatever the operating system or the renderer raises.\<close>

datatype exn = ValueError string | OSError string

text \<open>A text placed on the colorbar is either a string or a number under the format \<open>.3g\<close>.\<close>

datatype text_content = Str string | Format_3g real

record text_artist =
  text_x :: real
  text_y :: real
  text_s :: text_content
  text_va :: string
  text_ha :: string
  text_rotation :: real

record colorbar =
  shrink :: real
  aspect :: real
  pad :: real
  cbar_axis_on :: bool
  cbar_texts :: "text_artist list"

record scalebar =
  sb_dx :: real
  sb_units :: string
  length_fraction :: real
  location :: string
  scale_loc :: string
  frameon :: bool
  border_pad :: real
  width_fraction :: real
  color :: string

record axes_image =
  im_data :: "real list list"
  interpolation :: string
  origin :: string
  extent :: "real \<times> real \<times> real \<times> real"
  im_cmap :: string

text \<open>A figure with its single axes: pyplot's number for it, and what has been drawn.\<close>

record figure =
  number :: nat
  layout :: string
  axis_on :: bool
  images :: "axes_image list"
  colorbars :: "colorbar list"
  artists :: "scalebar list"

text \<open>One call of \<open>fig.savefig\<close> that returned: the file written and the figure as it was.\<close>

record saved_image =
  path :: string
  dpi :: nat
  bbox_inches :: string
  fig :: figure

text \<open>The effects of a run: lines printed, directories made, the numbers of the figures that
  pyplot holds open (in the order of creation), and the images written (in the order of the
  calls; a later write to the same path replaces the file of an earlier one).\<close>

record state =
  stdout :: "string list"
  made_dirs :: "string list"
  open_figs :: "nat list"
  saved :: "saved_image list"

text \<open>The outside: the working directory and its listing; the parser
  \<open>gwy.util.get_datafields (gwy.load file)\<close>, which returns the channels as the items of a
  dictionary or raises an \<open>Exception\<close> (\<open>Inl\<close> of its text); and the calls that may raise
  when they write: \<open>os.makedirs\<close> on a path, \<open>fig.savefig\<close> on a path after a given number of
  images written so far.\<close>

record env =
  getcwd :: string
  listdir :: "string list"
  get_datafields :: "string \<Rightarrow> string + (string \<times> channel) list"
  makedirs_raises :: "string \<Rightarrow> exn option"
  savefig_raises :: "nat \<Rightarrow> string \<Rightarrow> exn option"

subsection \<open>Library functions the script calls\<close>

text \<open>\<open>str.endswith\<close>.\<close>

definition endswith :: "string \<Rightarrow> string \<Rightarrow> bool" where
  "endswith s suf \<longleftrightarrow> length suf \<le> length s \<and> drop (length s - length suf) s = suf"

text \<open>\<open>str.rfind\<close> for one character: the last index where it stands, or \<open>-1\<close>.\<close>

fun rfind :: "char \<Rightarrow> string \<Rightarrow> int" where
  "rfind c [] = - 1"
| "rfind c (x # xs) =
     (let r = rfind c xs in if 0 \<le> r then r + 1 else if x = c then 0 else - 1)"

text \<open>\<open>posixpath.splitext\<close>: the extension starts at the last dot, when that dot comes after
  the last slash and some character between the slash and the dot is not a dot; the loop
  over \<open>filenameIndex\<close> is the search for such a character.\<close>

definition splitext :: "string \<Rightarrow> string \<times> string" where
  "splitext p =
     (let sepIndex = rfind CHR ''/'' p;
          dotIndex = rfind CHR ''.'' p
      in if sepIndex < dotIndex \<and>
            list_ex (\<lambda>i. p ! i \<noteq> CHR ''.'') [nat (sepIndex + 1) ..< nat dotIndex]
         then (take (nat dotIndex) p, drop (nat dotIndex) p)
         else (p, []))"

text \<open>\<open>posixpath.join\<close> of two components.\<close>

definition path_join :: "string \<Rightarrow> string \<Rightarrow> string" where
  "path_join a b =
     (if b \<noteq> [] \<and> hd b = CHR ''/'' then b
      else if a = [] \<or> last a = CHR ''/'' then a @ b
      else a @ ''/'' @ b)"

text \<open>\<open>ndarray.min\<close> and \<open>ndarray.max\<close> over all elements; numpy raises on an array without
  elements.\<close>

definition amin :: "real list list \<Rightarrow> exn + real" where
  "amin d =
     (case concat d of
        [] \<Rightarrow> Inl (ValueError ''zero-size array to reduction operation minimum which has no identity'')
      | x # xs \<Rightarrow> Inr (fold min xs x))"

definition amax :: "real list list \<Rightarrow> exn + real" where
  "amax d =
     (case concat d of
        [] \<Rightarrow> Inl (ValueError ''zero-size array to reduction operation maximum which has no identity'')
      | x # xs \<Rightarrow> Inr (fold max xs x))"

text \<open>\<open>print\<close>.\<close>

definition print :: "string \<Rightarrow> state \<Rightarrow> state" where
  "print line st = st\<lparr>stdout := stdout st @ [line]\<rparr>"

text \<open>\<open>os.makedirs (path, exist_ok=True)\<close>.\<close>

definition makedirs :: "env \<Rightarrow> string \<Rightarrow> state \<Rightarrow> exn option \<times> state" where
  "makedirs e p st =
     (case makedirs_raises e p of
        Some x \<Rightarrow> (Some x, st)
      | None \<Rightarrow> (None, st\<lparr>made_dirs := made_dirs st @ [p]\<rparr>))"

text \<open>\<open>plt.subplots (layout=...)\<close>: pyplot makes a new figure, numbers it one above the
  largest number in use (1 when no figure is open) and keeps it in its registry until
  \<open>plt.close\<close> is called on it.\<close>

definition subplots :: "string \<Rightarrow> state \<Rightarrow> figure \<times> state" where
  "subplots lay st =
     (let n = (if open_figs st = [] then 1 else Max (set (open_figs st)) + 1)
      in (\<lparr>number = n, layout = lay, axis_on = True, images = [], colorbars = [], artists = []\<rparr>,
          st\<lparr>open_figs := open_figs st @ [n]\<rparr>))"

text \<open>\<open>fig.savefig (path, dpi=..., bbox_inches=...)\<close>.\<close>

definition savefig :: "env \<Rightarrow> figure \<Rightarrow> string \<Rightarrow> nat \<Rightarrow> string \<Rightarrow> state \<Rightarrow> exn option \<times> state" where
  "savefig e f p d bb st =
     (case savefig_raises e (length (saved st)) p of
        Some x \<Rightarrow> (Some x, st)
      | None \<Rightarrow> (None, st\<lparr>saved := saved st @ [\<lparr>path = p, dpi = d, bbox_inches = bb, fig = f\<rparr>]\<rparr>))"

subsection \<open>The script\<close>

text \<open>\<open>add_cbar\<close>: the colorbar, its axis hidden, the minimum of the data under it, the
  maximum above it, the label to its right.\<close>

definition add_cbar :: "figure \<Rightarrow> real list list \<Rightarrow> string \<Rightarrow> exn + figure" where
  "add_cbar f d lbl =
     (let cbar = \<lparr>shrink = 1 / 2, aspect = 12, pad = 3 / 100, cbar_axis_on = True, cbar_texts = []\<rparr>;
          cbar = cbar\<lparr>cbar_axis_on := False\<rparr>;
          sep = 7 / 100
      in case amin d of
           Inl x \<Rightarrow> Inl x
         | Inr lo \<Rightarrow>
             (case amax d of
                Inl x \<Rightarrow> Inl x
              | Inr hi \<Rightarrow>
                  Inr (f\<lparr>colorbars := colorbars f @
                    [cbar\<lparr>cbar_texts :=
                      [\<lparr>text_x = 1 / 2, text_y = 0 - sep, text_s = Format_3g lo,
                        text_va = ''center'', text_ha = ''center'', text_rotation = 0\<rparr>,
                       \<lparr>text_x = 1 / 2, text_y = 1 + sep, text_s = Format_3g hi,
                        text_va = ''center'', text_ha = ''center'', text_rotation = 0\<rparr>,
                       \<lparr>text_x = 9 / 4, text_y = 1 / 2, text_s = Str lbl,
                        text_va = ''center'', text_ha = ''center'', text_rotation = - 90\<rparr>]\<rparr>]\<rparr>)))"

text \<open>\<open>add_scalebar\<close>.\<close>

definition add_scalebar :: "figure \<Rightarrow> figure" where
  "add_scalebar f =
     (let scalebar = \<lparr>sb_dx = 1, sb_units = ''m'', length_fraction = 3 / 10,
                       location = ''lower left'', scale_loc = ''top'', frameon = False,
                       border_pad = 3 / 2, width_fraction = 12 / 1000, color = ''white''\<rparr>
      in f\<lparr>artists := artists f @ [scalebar]\<rparr>)"

text \<open>Lines 118 to 122 of the loop body: the samples times the scale of the channel and, for
  the key \<open>ZSensor\<close>, minus their minimum. The product and the difference stand for the
  rounded \<open>float64\<close> operations of numpy.\<close>

definition scale_data :: "string \<Rightarrow> chan_params \<Rightarrow> channel \<Rightarrow> exn + real list list" where
  "scale_data key p ch =
     (let d = map (map (\<lambda>x. x * datascale p)) (chan_data ch)
      in if key = ''ZSensor''
         then (case amin d of Inl x \<Rightarrow> Inl x | Inr m \<Rightarrow> Inr (map (map (\<lambda>x. x - m)) d))
         else Inr d)"

text \<open>The path of the image of a file and a channel key (line 136).\<close>

definition output_path :: "string \<Rightarrow> string \<Rightarrow> string \<Rightarrow> string" where
  "output_path output_folder file key =
     path_join output_folder (fst (splitext file) @ ''.'' @ key @ ''.png'')"

text \<open>The body of the loop over the channels of one file.\<close>

definition process_channel ::
  "env \<Rightarrow> string \<Rightarrow> string \<Rightarrow> string \<times> channel \<Rightarrow> state \<Rightarrow> exn option \<times> state" where
  "process_channel e output_folder file kc st =
     (case kc of (key, ch) \<Rightarrow>
        (case map_of params key of
           None \<Rightarrow> (None, st)
         | Some p \<Rightarrow>
            (case scale_data key p ch of
               Inl x \<Rightarrow> (Some x, st)
             | Inr d \<Rightarrow>
                (case subplots ''constrained'' st of (f, st1) \<Rightarrow>
                   (let f = f\<lparr>images := images f @
                              [\<lparr>im_data = d, interpolation = ''none'', origin = ''upper'',
                                extent = (0, xreal ch, 0, yreal ch), im_cmap = cmap p\<rparr>]\<rparr>;
                        f = f\<lparr>axis_on := False\<rparr>
                    in case add_cbar f d (label p) of
                         Inl x \<Rightarrow> (Some x, st1)
                       | Inr f \<Rightarrow>
                           savefig e (add_scalebar f) (output_path output_folder file key)
                             300 ''tight'' st1)))))"

fun process_channels ::
  "env \<Rightarrow> string \<Rightarrow> string \<Rightarrow> (string \<times> channel) list \<Rightarrow> state \<Rightarrow> exn option \<times> state" where
  "process_channels e output_folder file [] st = (None, st)"
| "process_channels e output_folder file (kc # rest) st =
     (case process_channel e output_folder file kc st of
        (Some x, st') \<Rightarrow> (Some x, st')
      | (None, st') \<Rightarrow> process_channels e output_folder file rest st')"

text \<open>The loop over the files, with its \<open>try\<close> around the parser only.\<close>

fun process_files :: "env \<Rightarrow> string \<Rightarrow> string list \<Rightarrow> state \<Rightarrow> exn option \<times> state" where
  "process_files e output_folder [] st = (None, st)"
| "process_files e output_folder (file # rest) st =
     (case get_datafields e file of
        Inl msg \<Rightarrow>
          process_files e output_folder rest (print (''Error loading '' @ file @ '': '' @ msg) st)
      | Inr channels \<Rightarrow>
          (case process_channels e output_folder file channels st of
             (Some x, st') \<Rightarrow> (Some x, st')
           | (None, st') \<Rightarrow> process_files e output_folder rest st'))"

text \<open>\<open>process_gwy_files\<close>. The result \<open>None\<close> is a normal return, after which the script
  ends with exit status 0; \<open>Some x\<close> is the exception \<open>x\<close> leaving the function.\<close>

definition process_gwy_files :: "env \<Rightarrow> state \<Rightarrow> exn option \<times> state" where
  "process_gwy_files e st =
     (let files = filter (\<lambda>f. endswith f ''.gwy'') (listdir e)
      in if files = [] then (None, print ''No .gwy files found in the folder.'' st)
         else
           (let output_folder = path_join (getcwd e) ''processed_images''
            in case makedirs e output_folder st of
                 (Some x, st') \<Rightarrow> (Some x, st')
               | (None, st') \<Rightarrow> process_files e output_folder files st'))"

text \<open>The state before the script runs.\<close>

definition init_state :: state where
  "init_state = \<lparr>stdout = [], made_dirs = [], open_figs = [], saved = []\<rparr>"

subsection \<open>What a batch should produce\<close>

text \<open>The pairs of a file and a channel key of the table that a batch of files holds, in the
  order of the two loops: for each file that parses, its channels whose key is in \<open>params\<close>.
  This list is not computed by the script; the images written are compared with it.\<close>

definition recognized_pairs :: "env \<Rightarrow> string list \<Rightarrow> (string \<times> string) list" where
  "recognized_pairs e files =
     concat (map (\<lambda>file. case get_datafields e file of
                            Inl msg \<Rightarrow> []
                          | Inr channels \<Rightarrow>
                              map (\<lambda>kc. (file, fst kc))
                                (filter (\<lambda>kc. fst kc \<in> set (map fst params)) channels)) files)"

text \<open>What an image is expected to show: one array, one colorbar and one scale bar; under
  and above the colorbar the minimum and the maximum of the array shown, in the format
  \<open>.3g\<close>; a scale bar of three tenths of the width, in the lower left corner, without a
  frame.\<close>

definition annotated :: "figure \<Rightarrow> bool" where
  "annotated f \<longleftrightarrow>
     length (images f) = 1 \<and> length (colorbars f) = 1 \<and> length (artists f) = 1 \<and>
     (let shown = concat (im_data (hd (images f)));
          cbar = hd (colorbars f);
          bar = hd (artists f)
      in shown \<noteq> []
       \<and> map text_s (take 2 (cbar_texts cbar)) = [Format_3g (Min (set shown)), Format_3g (Max (set shown))]
       \<and> length_fraction bar = 3 / 10
       \<and> location bar = ''lower left''
       \<and> \<not> frameon bar)"

text \<open>How the figures of a run relate to the state before it: the figures open before are
  still open, in place; the figures opened since have numbers of their own, and none of a
  figure open before; the images written since are drawn on figures opened since, each on
  a different one, and each such figure is still open.\<close>

definition drawn_apart :: "state \<Rightarrow> state \<Rightarrow> bool" where
  "drawn_apart st st' \<longleftrightarrow>
     (let new_figs = drop (length (open_figs st)) (open_figs st');
          new_saved = drop (length (saved st)) (saved st')
      in take (length (open_figs st)) (open_figs st') = open_figs st
       \<and> take (length (saved st)) (saved st') = saved st
       \<and> distinct new_figs
       \<and> set new_figs \<inter> set (open_figs st) = {}
       \<and> distinct (map (\<lambda>s. number (fig s)) new_saved)
       \<and> set (map (\<lambda>s. number (fig s)) new_saved) \<subseteq> set new_figs)"

subsection \<open>Example directories\<close>

text \<open>A directory without a scan file: the names only resemble the extension.\<close>

definition env_no_scans :: env where
  "env_no_scans = \<lparr>getcwd = ''/data'', listdir = [''notes.txt'', ''scan.gwy.bak'', ''gwy''],
      get_datafields = (\<lambda>f. Inl ''not read''), makedirs_raises = (\<lambda>p. None),
      savefig_raises = (\<lambda>n p. None)\<rparr>"



text \<open>A small scan, and a directory with a file that does not parse, a file that is no scan,
  and a scan with a channel outside the table and a height channel.\<close>

definition scan :: channel where
  "scan = \<lparr>chan_data = [[3, 1], [2, 5]], xreal = 4, yreal = 4\<rparr>"

definition env_batch :: env where
  "env_batch = \<lparr>getcwd = ''/data'', listdir = [''bad.gwy'', ''readme.txt'', ''good.gwy''],
      get_datafields = (\<lambda>f. if f = ''good.gwy'' then Inr [(''Phase'', scan), (''ZSensor'', scan)]
                            else Inl ''unexpected end of file''),
      makedirs_raises = (\<lambda>p. None), savefig_raises = (\<lambda>n p. None)\<rparr>"

text \<open>A directory of two scans where the disk is full after the first image.\<close>

definition env_disk_full :: env where
  "env_disk_full = \<lparr>getcwd = ''/data'', listdir = [''good.gwy'', ''later.gwy''],
      get_datafields = (\<lambda>f. Inr [(''Phase'', scan), (''ZSensor'', scan), (''Potential'', scan)]),
      makedirs_raises = (\<lambda>p. None),
      savefig_raises = (\<lambda>n p. if n < 1 then None else Some (OSError ''No space left on device''))\<rparr>"

text \<open>A directory with a scan named by the extension alone and a scan named by that name
  and the extension.\<close>

definition env_dotfiles :: env where
  "env_dotfiles = \<lparr>getcwd = ''/data'', listdir = [''.gwy'', ''.gwy.gwy''],
      get_datafields = (\<lambda>f. Inr [(''ZSensor'', scan)]),
      makedirs_raises = (\<lambda>p. None), savefig_raises = (\<lambda>n p. None)\<rparr>"

section \<open>Properties\<close>

subsection \<open>Evaluating the example runs\<close>

lemmas run_defs = process_gwy_files_def init_state_def endswith_def path_join_def makedirs_def
       print_def process_channel_def params_def scale_data_def amin_def amax_def subplots_def add_cbar_def
       add_scalebar_def savefig_def output_path_def scan_def Let_def

lemma splitext_good: "splitext ''good.gwy'' = (''good'', ''.gwy'')"
  by (simp add: splitext_def Let_def upt_conv_Cons)

subsection \<open>Minimum and maximum of an array\<close>

lemma amin_eq:
  assumes "concat d \<noteq> []"
  shows "amin d = Inr (Min (set (concat d)))"
proof -
  obtain x xs where c: "concat d = x # xs"
    using assms by (cases "concat d") blast+
  show ?thesis
    unfolding amin_def c using Min.set_eq_fold [of x xs] by simp
qed

lemma amax_eq:
  assumes "concat d \<noteq> []"
  shows "amax d = Inr (Max (set (concat d)))"
proof -
  obtain x xs where c: "concat d = x # xs"
    using assms by (cases "concat d") blast+
  show ?thesis
    unfolding amax_def c using Max.set_eq_fold [of x xs] by simp
qed

lemma amin_empty:
  assumes "concat d = []"
  shows "\<exists>x. amin d = Inl x"
  unfolding amin_def assms by simp

subsection \<open>A directory without scan files\<close>

text \<open>
  Claim C6. When no name of the listing ends in \<open>.gwy\<close>, the run prints the one message
  and returns normally; no directory is made, no figure is opened, no image is written.
\<close>

theorem no_scan_files_early_return:
  assumes "\<forall>f \<in> set (listdir e). \<not> endswith f ''.gwy''"
  shows "process_gwy_files e st =
           (None, st\<lparr>stdout := stdout st @ [''No .gwy files found in the folder.'']\<rparr>)"
proof -
  have "filter (\<lambda>f. endswith f ''.gwy'') (listdir e) = []"
    using assms by (simp add: filter_empty_conv)
  then show ?thesis
    by (simp add: process_gwy_files_def print_def)
qed

theorem no_scan_files_early_return_witness:
  "filter (\<lambda>f. endswith f ''.gwy'') (listdir env_no_scans) = []
   \<and> process_gwy_files env_no_scans init_state =
        (None, \<lparr>stdout = [''No .gwy files found in the folder.''], made_dirs = [], open_figs = [],
                saved = []\<rparr>)"
proof -
  have h: "\<forall>f \<in> set (listdir env_no_scans). \<not> endswith f ''.gwy''"
    by (simp add: env_no_scans_def endswith_def)
  from no_scan_files_early_return [OF h, of init_state] h show ?thesis
    by (simp add: init_state_def)
qed

subsection \<open>The table of channels\<close>



subsection \<open>The two loops\<close>

lemma process_channels_append:
  "process_channels e out file (xs @ ys) st =
     (case process_channels e out file xs st of
        (Some x, st') \<Rightarrow> (Some x, st')
      | (None, st') \<Rightarrow> process_channels e out file ys st')"
  by (induction xs arbitrary: st) (auto split: prod.splits option.splits)

lemma process_files_append:
  "process_files e out (xs @ ys) st =
     (case process_files e out xs st of
        (Some x, st') \<Rightarrow> (Some x, st')
      | (None, st') \<Rightarrow> process_files e out ys st')"
  by (induction xs arbitrary: st) (auto split: prod.splits option.splits sum.splits)

lemma process_channel_unrecognized:
  "fst kc \<notin> set (map fst params) \<Longrightarrow> process_channel e out file kc st = (None, st)"
proof -
  assume "fst kc \<notin> set (map fst params)"
  then have "map_of params (fst kc) = None" by (simp add: map_of_eq_None_iff)
  then show ?thesis by (cases kc) (simp add: process_channel_def)
qed

lemma process_channels_filter:
  "process_channels e out file channels st =
     process_channels e out file (filter (\<lambda>kc. fst kc \<in> set (map fst params)) channels) st"
proof (induction channels arbitrary: st)
  case Nil
  show ?case by simp
next
  case (Cons kc pending)
  show ?case
  proof (cases "fst kc \<in> set (map fst params)")
    case True
    then show ?thesis using Cons.IH by (simp split: prod.splits option.splits)
  next
    case False
    then show ?thesis using Cons.IH process_channel_unrecognized [OF False] by simp
  qed
qed

lemma process_channel_saved:
  assumes "process_channel e out file kc st = (r, st')"
  shows "if fst kc \<in> set (map fst params) \<and> r = None
         then map path (saved st') = map path (saved st) @ [output_path out file (fst kc)]
         else saved st' = saved st"
proof (cases "fst kc \<in> set (map fst params)")
  case False
  then show ?thesis using assms process_channel_unrecognized [OF False, of e out "file" st] by simp
next
  case True
  obtain key ch where kc: "kc = (key, ch)" by (cases kc)
  from True obtain p where p: "map_of params key = Some p"
    unfolding kc by (cases "map_of params key") (auto simp: map_of_eq_None_iff)
  show ?thesis
    using assms True unfolding kc
    by (auto simp: process_channel_def p subplots_def savefig_def Let_def
          split: sum.splits option.splits)
qed

lemma process_channels_saved:
  assumes "process_channels e out file channels st = (r, st')"
  shows "\<exists>written pending.
           map fst (filter (\<lambda>kc. fst kc \<in> set (map fst params)) channels) = written @ pending
         \<and> map path (saved st') = map path (saved st) @ map (output_path out file) written
         \<and> (r = None \<longrightarrow> pending = [])"
  using assms
proof (induction channels arbitrary: st)
  case Nil
  then show ?case by simp
next
  case (Cons kc others)
  obtain r1 st1 where step: "process_channel e out file kc st = (r1, st1)"
    by (cases "process_channel e out file kc st")
  note sv = process_channel_saved [OF step]
  show ?case
  proof (cases r1)
    case (Some x)
    then have "r = Some x" and "st' = st1" using Cons.prems step by simp_all
    moreover have "saved st1 = saved st" using sv Some by simp
    ultimately show ?thesis by simp
  next
    case None
    then have run: "process_channels e out file others st1 = (r, st')"
      using Cons.prems step by simp
    from Cons.IH [OF run] obtain written pending where
      d: "map fst (filter (\<lambda>kc. fst kc \<in> set (map fst params)) others) = written @ pending"
      and p: "map path (saved st') = map path (saved st1) @ map (output_path out file) written"
      and n: "r = None \<longrightarrow> pending = []" by blast
    show ?thesis
    proof (cases "fst kc \<in> set (map fst params)")
      case True
      then have s1: "map path (saved st1) = map path (saved st) @ [output_path out file (fst kc)]"
        using sv None by simp
      have "map fst (filter (\<lambda>kc. fst kc \<in> set (map fst params)) (kc # others)) = (fst kc # written) @ pending"
        using True d by simp
      moreover have "map path (saved st') = map path (saved st) @ map (output_path out file) (fst kc # written)"
        using p s1 by simp
      ultimately show ?thesis using n by blast
    next
      case False
      then have s1: "saved st1 = saved st" using sv by simp
      have "map fst (filter (\<lambda>kc. fst kc \<in> set (map fst params)) (kc # others)) = written @ pending"
        using False d by simp
      moreover have "map path (saved st') = map path (saved st) @ map (output_path out file) written"
        using p s1 by simp
      ultimately show ?thesis using n by blast
    qed
  qed
qed

lemma recognized_pairs_Cons:
  "recognized_pairs e (file # others) =
     (case get_datafields e file of
        Inl msg \<Rightarrow> []
      | Inr channels \<Rightarrow>
          map (Pair file) (map fst (filter (\<lambda>kc. fst kc \<in> set (map fst params)) channels)))
     @ recognized_pairs e others"
  by (simp add: recognized_pairs_def comp_def split: sum.splits)

lemma process_files_saved:
  assumes "process_files e out files st = (r, st')"
  shows "\<exists>written pending.
           recognized_pairs e files = written @ pending
         \<and> map path (saved st') = map path (saved st) @ map (\<lambda>fk. output_path out (fst fk) (snd fk)) written
         \<and> (r = None \<longrightarrow> pending = [])"
  using assms
proof (induction files arbitrary: st)
  case Nil
  then show ?case by (simp add: recognized_pairs_def)
next
  case (Cons f others)
  show ?case
  proof (cases "get_datafields e f")
    case (Inl msg)
    then have run: "process_files e out others (print (''Error loading '' @ f @ '': '' @ msg) st) = (r, st')"
      using Cons.prems by simp
    from Cons.IH [OF run] show ?thesis
      by (simp add: recognized_pairs_Cons Inl print_def)
  next
    case (Inr channels)
    obtain r1 st1 where chs: "process_channels e out f channels st = (r1, st1)"
      by (cases "process_channels e out f channels st")
    from process_channels_saved [OF chs] obtain written1 pending1 where
      d1: "map fst (filter (\<lambda>kc. fst kc \<in> set (map fst params)) channels) = written1 @ pending1"
      and p1: "map path (saved st1) = map path (saved st) @ map (output_path out f) written1"
      and n1: "r1 = None \<longrightarrow> pending1 = []" by blast
    have pairs: "recognized_pairs e (f # others) =
        map (Pair f) written1 @ map (Pair f) pending1 @ recognized_pairs e others"
      unfolding recognized_pairs_Cons Inr sum.case d1 by simp
    show ?thesis
    proof (cases r1)
      case (Some x)
      then have "r = Some x" and "st' = st1" using Cons.prems Inr chs by simp_all
      moreover have "map path (saved st1) =
          map path (saved st) @ map (\<lambda>fk. output_path out (fst fk) (snd fk)) (map (Pair f) written1)"
        using p1 by (simp add: comp_def)
      ultimately show ?thesis using pairs by blast
    next
      case None
      then have run: "process_files e out others st1 = (r, st')"
        using Cons.prems Inr chs by simp
      from Cons.IH [OF run] obtain written2 pending2 where
        d2: "recognized_pairs e others = written2 @ pending2"
        and p2: "map path (saved st') = map path (saved st1) @ map (\<lambda>fk. output_path out (fst fk) (snd fk)) written2"
        and n2: "r = None \<longrightarrow> pending2 = []" by blast
      have "pending1 = []" using n1 None by simp
      then have "recognized_pairs e (f # others) = (map (Pair f) written1 @ written2) @ pending2"
        using pairs d2 by simp
      moreover have "map path (saved st') =
          map path (saved st) @ map (\<lambda>fk. output_path out (fst fk) (snd fk)) (map (Pair f) written1 @ written2)"
        using p1 p2 by (simp add: comp_def)
      ultimately show ?thesis using n2 by blast
    qed
  qed
qed


lemma process_gwy_files_saved:
  assumes run: "process_gwy_files e st = (r, st')"
  shows "\<exists>written pending.
           recognized_pairs e (filter (\<lambda>f. endswith f ''.gwy'') (listdir e)) = written @ pending
         \<and> map path (saved st') = map path (saved st) @
               map (\<lambda>fk. output_path (path_join (getcwd e) ''processed_images'') (fst fk) (snd fk)) written
         \<and> (r = None \<longrightarrow> pending = [])"
proof -
  define files where "files = filter (\<lambda>f. endswith f ''.gwy'') (listdir e)"
  define out where "out = path_join (getcwd e) ''processed_images''"
  have "\<exists>written pending. recognized_pairs e files = written @ pending
         \<and> map path (saved st') = map path (saved st) @ map (\<lambda>fk. output_path out (fst fk) (snd fk)) written
         \<and> (r = None \<longrightarrow> pending = [])"
  proof (cases "files = []")
    case True
    then have "saved st' = saved st" and "recognized_pairs e files = []"
      using run by (auto simp: process_gwy_files_def files_def [symmetric] print_def recognized_pairs_def)
    then show ?thesis by simp
  next
    case False
    show ?thesis
    proof (cases "makedirs_raises e out")
      case (Some x)
      then have "saved st' = saved st" and "r = Some x"
        using run False
        by (auto simp: process_gwy_files_def files_def [symmetric] out_def [symmetric] makedirs_def)
      then show ?thesis by simp
    next
      case None
      then have "process_files e out files (st\<lparr>made_dirs := made_dirs st @ [out]\<rparr>) = (r, st')"
        using run False
        by (auto simp: process_gwy_files_def files_def [symmetric] out_def [symmetric] makedirs_def)
      from process_files_saved [OF this] show ?thesis by simp
    qed
  qed
  then show ?thesis unfolding files_def out_def .
qed

lemma scale_data_nonempty:
  assumes "concat (chan_data ch) \<noteq> []"
  shows "\<exists>d. scale_data key p ch = Inr d \<and> concat d \<noteq> []"
proof -
  define d0 where "d0 = map (map (\<lambda>x. x * datascale p)) (chan_data ch)"
  have c0: "concat d0 = map (\<lambda>x. x * datascale p) (concat (chan_data ch))"
    unfolding d0_def by (rule map_concat [symmetric])
  have ne0: "concat d0 \<noteq> []" unfolding c0 using assms by simp
  define m where "m = Min (set (concat d0))"
  define d1 where "d1 = map (map (\<lambda>x. x - m)) d0"
  have c1: "concat d1 = map (\<lambda>x. x - m) (concat d0)"
    unfolding d1_def by (rule map_concat [symmetric])
  have ne1: "concat d1 \<noteq> []" unfolding c1 using ne0 by simp
  have "scale_data key p ch = Inr (if key = ''ZSensor'' then d1 else d0)"
    unfolding scale_data_def Let_def d0_def [symmetric] amin_eq [OF ne0] m_def [symmetric] d1_def
    by simp
  then show ?thesis using ne0 ne1 by (cases "key = ''ZSensor''") simp_all
qed

lemma add_cbar_nonempty:
  assumes "concat d \<noteq> []"
  shows "\<exists>f'. add_cbar f d lbl = Inr f'"
  unfolding add_cbar_def Let_def amin_eq [OF assms] amax_eq [OF assms] by simp

lemma process_channel_save:
  assumes "map_of params key = Some p" and "concat (chan_data ch) \<noteq> []"
  shows "\<exists>f. process_channel e out file (key, ch) st =
           savefig e f (output_path out file key) 300 ''tight'' (snd (subplots ''constrained'' st))"
proof -
  from scale_data_nonempty [OF assms(2)] obtain d where
    d: "scale_data key p ch = Inr d" and ne: "concat d \<noteq> []" by blast
  define f0 where "f0 = (fst (subplots ''constrained'' st))
      \<lparr>images := images (fst (subplots ''constrained'' st)) @
         [\<lparr>im_data = d, interpolation = ''none'', origin = ''upper'',
           extent = (0, xreal ch, 0, yreal ch), im_cmap = cmap p\<rparr>], axis_on := False\<rparr>"
  from add_cbar_nonempty [OF ne] obtain f1 where f1: "add_cbar f0 d (label p) = Inr f1" by blast
  have "process_channel e out file (key, ch) st =
          savefig e (add_scalebar f1) (output_path out file key) 300 ''tight''
            (snd (subplots ''constrained'' st))"
    using f1 unfolding f0_def
    by (simp add: process_channel_def assms(1) d Let_def case_prod_beta)
  then show ?thesis by blast
qed

subsection \<open>Failures\<close>



text \<open>
  Claim C7. An exception raised by \<open>savefig\<close> is not caught: the run ends with that
  exception, in the state of the moment (the figure is open, nothing is printed, nothing is
  written for this channel); the remaining channels of the file and the remaining files are
  never looked at.
\<close>

theorem save_failure_ends_batch:
  assumes "process_files e output_folder before st = (None, st0)"
      and "get_datafields e file = Inr (pre @ (key, ch) # post)"
      and "process_channels e output_folder file pre st0 = (None, st1)"
      and "map_of params key = Some p"
      and "concat (chan_data ch) \<noteq> []"
      and "savefig_raises e (length (saved st1)) (output_path output_folder file key) = Some x"
  shows "process_files e output_folder (before @ file # later) st =
           (Some x, st1\<lparr>open_figs := open_figs st1 @
                     [if open_figs st1 = [] then 1 else Max (set (open_figs st1)) + 1]\<rparr>)"
proof -
  let ?st2 = "snd (subplots ''constrained'' st1)"
  have st2: "?st2 = st1\<lparr>open_figs := open_figs st1 @
                     [if open_figs st1 = [] then 1 else Max (set (open_figs st1)) + 1]\<rparr>"
    by (simp add: subplots_def Let_def)
  from process_channel_save [OF assms(4,5)] obtain f where
    "process_channel e output_folder file (key, ch) st1 =
       savefig e f (output_path output_folder file key) 300 ''tight'' ?st2" by blast
  then have ch: "process_channel e output_folder file (key, ch) st1 = (Some x, ?st2)"
    using assms(6) by (simp add: savefig_def subplots_def Let_def)
  have "process_channels e output_folder file (pre @ (key, ch) # post) st0 = (Some x, ?st2)"
    by (simp add: process_channels_append assms(3) ch)
  then have "process_files e output_folder (file # later) st0 = (Some x, ?st2)"
    by (simp add: assms(2))
  then have "process_files e output_folder (before @ file # later) st = (Some x, ?st2)"
    by (simp add: process_files_append assms(1))
  then show ?thesis unfolding st2 .
qed

theorem save_failure_ends_batch_witness:
  "fst (process_files env_disk_full ''/data/processed_images'' ([] @ ''good.gwy'' # [''later.gwy'']) init_state)
     = Some (OSError ''No space left on device'')
   \<and> map path (saved (snd (process_files env_disk_full ''/data/processed_images'' ([] @ ''good.gwy'' # [''later.gwy'']) init_state)))
     = [''/data/processed_images/good.ZSensor.png'']
   \<and> open_figs (snd (process_files env_disk_full ''/data/processed_images'' ([] @ ''good.gwy'' # [''later.gwy'']) init_state))
     = [1, 2]"
proof -
  define st1 where "st1 = snd (process_channels env_disk_full ''/data/processed_images'' ''good.gwy''
      [(''Phase'', scan), (''ZSensor'', scan)] init_state)"
  have sv: "savefig_raises env_disk_full = (\<lambda>n p. if n < 1 then None else Some (OSError ''No space left on device''))"
    by (simp add: env_disk_full_def)
  have fst1: "fst (process_channels env_disk_full ''/data/processed_images'' ''good.gwy''
      [(''Phase'', scan), (''ZSensor'', scan)] init_state) = None"
    by (simp add: sv run_defs splitext_good)
  have saved1: "map path (saved st1) = [''/data/processed_images/good.ZSensor.png'']"
    unfolding st1_def by (simp add: sv run_defs splitext_good)
  have figs1: "open_figs st1 = [1]"
    unfolding st1_def by (simp add: sv run_defs splitext_good)
  have h1: "process_files env_disk_full ''/data/processed_images'' [] init_state = (None, init_state)"
    by simp
  have h2: "get_datafields env_disk_full ''good.gwy'' =
      Inr ([(''Phase'', scan), (''ZSensor'', scan)] @ (''Potential'', scan) # [])"
    by (simp add: env_disk_full_def)
  have h3: "process_channels env_disk_full ''/data/processed_images'' ''good.gwy''
      [(''Phase'', scan), (''ZSensor'', scan)] init_state = (None, st1)"
    unfolding st1_def using fst1 by (simp add: prod_eq_iff)
  have h4: "map_of params ''Potential'' = Some \<lparr>cmap = ''inferno'', datascale = 1, label = ''Potential [V]''\<rparr>"
    by (simp add: params_def)
  have h5: "concat (chan_data scan) \<noteq> []" by (simp add: scan_def)
  have len: "length (saved st1) = 1" using saved1 [THEN arg_cong, of length] by simp
  have h6: "savefig_raises env_disk_full (length (saved st1))
      (output_path ''/data/processed_images'' ''good.gwy'' ''Potential'') = Some (OSError ''No space left on device'')"
    unfolding len by (simp add: sv)
  show ?thesis
    unfolding save_failure_ends_batch [OF h1 h2 h3 h4 h5 h6, of "[''later.gwy'']"]
    using saved1 figs1 by simp
qed

subsection \<open>Channels outside the table\<close>

text \<open>
  Claim C4. Channels whose key is not in the table are skipped without any effect: the
  loop over the channels of a file gives the same result and the same state as the loop
  over its channels with a key of the table only. The images written by a run are, in
  order, those of the pairs of a file and a key of the table, one image for one pair: an
  initial part of that list, and all of it when the run returns normally.
\<close>

theorem unrecognized_channels_skipped:
  "process_channels e output_folder file channels st =
     process_channels e output_folder file
       (filter (\<lambda>kc. fst kc \<in> set (map fst params)) channels) st
   \<and> (\<exists>written pending.
           recognized_pairs e (filter (\<lambda>f. endswith f ''.gwy'') (listdir e)) = written @ pending
         \<and> map path (saved (snd (process_gwy_files e st))) = map path (saved st) @
               map (\<lambda>fk. output_path (path_join (getcwd e) ''processed_images'') (fst fk) (snd fk)) written
         \<and> (fst (process_gwy_files e st) = None \<longrightarrow> pending = []))"
  using process_channels_filter [of e output_folder "file" channels st]
    process_gwy_files_saved [of e st "fst (process_gwy_files e st)" "snd (process_gwy_files e st)"]
  by simp

theorem unrecognized_channels_skipped_witness:
  "process_channels env_batch ''/data/processed_images'' ''good.gwy'' [(''Phase'', scan), (''ZSensor'', scan)] init_state
     = process_channels env_batch ''/data/processed_images'' ''good.gwy'' [(''ZSensor'', scan)] init_state
   \<and> recognized_pairs env_batch (filter (\<lambda>f. endswith f ''.gwy'') (listdir env_batch)) = [(''good.gwy'', ''ZSensor'')]
   \<and> fst (process_gwy_files env_batch init_state) = None
   \<and> map path (saved (snd (process_gwy_files env_batch init_state))) = [''/data/processed_images/good.ZSensor.png'']"
proof -
  have pairs: "recognized_pairs env_batch (filter (\<lambda>f. endswith f ''.gwy'') (listdir env_batch)) = [(''good.gwy'', ''ZSensor'')]"
    by (simp add: recognized_pairs_def env_batch_def endswith_def params_def)
  have ok: "fst (process_gwy_files env_batch init_state) = None"
    by (simp add: env_batch_def run_defs splitext_good)
  have flt: "filter (\<lambda>kc. fst kc \<in> set (map fst params)) [(''Phase'', scan), (''ZSensor'', scan)] = [(''ZSensor'', scan)]"
    by (simp add: params_def)
  from unrecognized_channels_skipped [of env_batch "''/data/processed_images''" "''good.gwy''"
      "[(''Phase'', scan), (''ZSensor'', scan)]" init_state]
  obtain written pending where
    a: "process_channels env_batch ''/data/processed_images'' ''good.gwy'' [(''Phase'', scan), (''ZSensor'', scan)] init_state
     = process_channels env_batch ''/data/processed_images'' ''good.gwy'' [(''ZSensor'', scan)] init_state"
    and b: "[(''good.gwy'', ''ZSensor'')] = written @ pending"
    and c: "map path (saved (snd (process_gwy_files env_batch init_state))) = map path (saved init_state) @
               map (\<lambda>fk. output_path (path_join (getcwd env_batch) ''processed_images'') (fst fk) (snd fk)) written"
    and d: "pending = []"
    unfolding flt pairs using ok by blast
  have w: "written = [(''good.gwy'', ''ZSensor'')]" using b d by simp
  have "map path (saved (snd (process_gwy_files env_batch init_state))) = [''/data/processed_images/good.ZSensor.png'']"
    unfolding c w by (simp add: init_state_def env_batch_def path_join_def output_path_def splitext_good)
  then show ?thesis using a pairs ok by simp
qed

subsection \<open>A property of every step is a property of the run\<close>

lemma process_channels_rel:
  fixes R :: "state \<Rightarrow> state \<Rightarrow> bool"
  assumes init: "\<And>s. R s s"
      and trans: "\<And>a b c. R a b \<Longrightarrow> R b c \<Longrightarrow> R a c"
      and step: "\<And>kc s r s'. process_channel e out file kc s = (r, s') \<Longrightarrow> R s s'"
      and run: "process_channels e out file channels st = (r, st')"
  shows "R st st'"
  using run
proof (induction channels arbitrary: st)
  case Nil
  then show ?case using init by simp
next
  case (Cons kc others)
  obtain r1 st1 where one: "process_channel e out file kc st = (r1, st1)"
    by (cases "process_channel e out file kc st")
  show ?case
  proof (cases r1)
    case (Some x)
    then have "st' = st1" using Cons.prems one by simp
    then show ?thesis using step [OF one] by simp
  next
    case None
    then have "process_channels e out file others st1 = (r, st')"
      using Cons.prems one by simp
    from trans [OF step [OF one] Cons.IH [OF this]] show ?thesis .
  qed
qed

lemma process_files_rel:
  fixes R :: "state \<Rightarrow> state \<Rightarrow> bool"
  assumes init: "\<And>s. R s s"
      and trans: "\<And>a b c. R a b \<Longrightarrow> R b c \<Longrightarrow> R a c"
      and step: "\<And>f kc s r s'. process_channel e out f kc s = (r, s') \<Longrightarrow> R s s'"
      and printed: "\<And>line s. R s (print line s)"
      and run: "process_files e out files st = (r, st')"
  shows "R st st'"
  using run
proof (induction files arbitrary: st)
  case Nil
  then show ?case using init by simp
next
  case (Cons f others)
  show ?case
  proof (cases "get_datafields e f")
    case (Inl msg)
    then have "process_files e out others (print (''Error loading '' @ f @ '': '' @ msg) st) = (r, st')"
      using Cons.prems by simp
    from trans [OF printed Cons.IH [OF this]] show ?thesis .
  next
    case (Inr channels)
    obtain r1 st1 where chs: "process_channels e out f channels st = (r1, st1)"
      by (cases "process_channels e out f channels st")
    have one: "R st st1"
      using process_channels_rel [of R e out f channels st r1 st1] init trans step chs by blast
    show ?thesis
    proof (cases r1)
      case (Some x)
      then have "st' = st1" using Cons.prems Inr chs by simp
      then show ?thesis using one by simp
    next
      case None
      then have "process_files e out others st1 = (r, st')"
        using Cons.prems Inr chs by simp
      from trans [OF one Cons.IH [OF this]] show ?thesis .
    qed
  qed
qed

lemma process_gwy_files_rel:
  fixes R :: "state \<Rightarrow> state \<Rightarrow> bool"
  assumes init: "\<And>s. R s s"
      and trans: "\<And>a b c. R a b \<Longrightarrow> R b c \<Longrightarrow> R a c"
      and step: "\<And>out f kc s r s'. process_channel e out f kc s = (r, s') \<Longrightarrow> R s s'"
      and printed: "\<And>line s. R s (print line s)"
      and made: "\<And>p s. R s (s\<lparr>made_dirs := made_dirs s @ [p]\<rparr>)"
  shows "R st (snd (process_gwy_files e st))"
proof -
  define files where "files = filter (\<lambda>f. endswith f ''.gwy'') (listdir e)"
  define out where "out = path_join (getcwd e) ''processed_images''"
  show ?thesis
  proof (cases "files = []")
    case True
    then show ?thesis using printed
      by (simp add: process_gwy_files_def files_def [symmetric])
  next
    case False
    show ?thesis
    proof (cases "makedirs_raises e out")
      case (Some x)
      then show ?thesis using False init
        by (simp add: process_gwy_files_def files_def [symmetric] out_def [symmetric] makedirs_def)
    next
      case None
      define st1 where "st1 = st\<lparr>made_dirs := made_dirs st @ [out]\<rparr>"
      obtain r st' where run: "process_files e out files st1 = (r, st')"
        by (cases "process_files e out files st1")
      have "R st1 st'"
        using process_files_rel [of R e out files st1 r st'] init trans step printed run by blast
      moreover have "R st st1" unfolding st1_def by (rule made)
      ultimately have "R st st'" using trans by blast
      moreover have "process_gwy_files e st = (r, st')"
        using False None run
        by (auto simp: process_gwy_files_def files_def [symmetric] out_def [symmetric]
              makedirs_def st1_def split: option.splits)
      ultimately show ?thesis by simp
    qed
  qed
qed

subsection \<open>What is drawn\<close>

lemma process_channel_new_saved:
  assumes "process_channel e out file kc st = (r, st')"
  shows "\<exists>new. saved st' = saved st @ new \<and> (\<forall>s \<in> set new. annotated (fig s))"
proof -
  obtain key ch where kc: "kc = (key, ch)" by (cases kc)
  show ?thesis
  proof (cases "map_of params key")
    case None
    then show ?thesis using assms by (simp add: kc process_channel_def)
  next
    case (Some p)
    show ?thesis
    proof (cases "scale_data key p ch")
      case (Inl x)
      then show ?thesis using assms by (simp add: kc process_channel_def Some)
    next
      case (Inr d)
      show ?thesis
      proof (cases "concat d = []")
        case True
        then obtain x where "amin d = Inl x" using amin_empty by blast
        then show ?thesis using assms
          by (auto simp: kc process_channel_def Some Inr add_cbar_def subplots_def Let_def)
      next
        case False
        show ?thesis using assms False
          by (auto simp: kc process_channel_def Some Inr add_cbar_def subplots_def Let_def
                add_scalebar_def savefig_def annotated_def amin_eq [OF False] amax_eq [OF False]
              split: option.splits)
      qed
    qed
  qed
qed

text \<open>
  Claim C9. Every image that a run writes shows one array with one colorbar and one scale
  bar; the first two texts of the colorbar are the minimum and the maximum of the array
  shown (the array after scaling and, for \<open>ZSensor\<close>, after the subtraction) in the format
  \<open>.3g\<close>; the scale bar has the length fraction 0.3, stands in the lower left corner and
  has no frame.
\<close>

theorem saved_images_annotated:
  "\<forall>s \<in> set (drop (length (saved st)) (saved (snd (process_gwy_files e st)))). annotated (fig s)"
proof -
  define R where "R = (\<lambda>(s::state) (s'::state). \<exists>new. saved s' = saved s @ new \<and> (\<forall>x \<in> set new. annotated (fig x)))"
  have "R st (snd (process_gwy_files e st))"
  proof (rule process_gwy_files_rel)
    show "R s s" for s unfolding R_def by simp
    show "R a c" if "R a b" and "R b c" for a b c
      using that unfolding R_def by auto
    show "R s s'" if "process_channel e out f kc s = (r, s')" for out f kc s r s'
      unfolding R_def using process_channel_new_saved [OF that] .
    show "R s (print line s)" for line s unfolding R_def by (simp add: print_def)
    show "R s (s\<lparr>made_dirs := made_dirs s @ [p]\<rparr>)" for p s unfolding R_def by simp
  qed
  then show ?thesis unfolding R_def by auto
qed

theorem saved_images_annotated_witness:
  "length (drop (length (saved init_state)) (saved (snd (process_gwy_files env_batch init_state)))) = 1
   \<and> annotated (fig (hd (saved (snd (process_gwy_files env_batch init_state)))))
   \<and> map text_s (cbar_texts (hd (colorbars (fig (hd (saved (snd (process_gwy_files env_batch init_state))))))))
       = [Format_3g 0, Format_3g 4000000000, Str ''Height [nm]'']"
proof -
  have a: "length (saved (snd (process_gwy_files env_batch init_state))) = 1"
    by (simp add: env_batch_def run_defs splitext_good)
  have b: "saved init_state = []" by (simp add: init_state_def)
  have c: "map text_s (cbar_texts (hd (colorbars (fig (hd (saved (snd (process_gwy_files env_batch init_state))))))))
       = [Format_3g 0, Format_3g 4000000000, Str ''Height [nm]'']"
    by (simp add: env_batch_def run_defs splitext_good)
  from a have "hd (saved (snd (process_gwy_files env_batch init_state)))
      \<in> set (drop (length (saved init_state)) (saved (snd (process_gwy_files env_batch init_state))))"
    unfolding b by (cases "saved (snd (process_gwy_files env_batch init_state))") simp_all
  with saved_images_annotated [of init_state env_batch] a b c show ?thesis by simp
qed

subsection \<open>Figures\<close>

lemma drawn_apart_iff:
  "drawn_apart st st' \<longleftrightarrow>
     (\<exists>nf ns. open_figs st' = open_figs st @ nf \<and> saved st' = saved st @ ns
        \<and> distinct nf \<and> set nf \<inter> set (open_figs st) = {}
        \<and> distinct (map (\<lambda>s. number (fig s)) ns)
        \<and> set (map (\<lambda>s. number (fig s)) ns) \<subseteq> set nf)"
proof
  assume a: "drawn_apart st st'"
  have "open_figs st' = open_figs st @ drop (length (open_figs st)) (open_figs st')"
    using a append_take_drop_id [of "length (open_figs st)" "open_figs st'"]
    by (simp add: drawn_apart_def Let_def)
  moreover have "saved st' = saved st @ drop (length (saved st)) (saved st')"
    using a append_take_drop_id [of "length (saved st)" "saved st'"]
    by (simp add: drawn_apart_def Let_def)
  ultimately show "\<exists>nf ns. open_figs st' = open_figs st @ nf \<and> saved st' = saved st @ ns
        \<and> distinct nf \<and> set nf \<inter> set (open_figs st) = {}
        \<and> distinct (map (\<lambda>s. number (fig s)) ns)
        \<and> set (map (\<lambda>s. number (fig s)) ns) \<subseteq> set nf"
    using a unfolding drawn_apart_def Let_def by blast
next
  assume "\<exists>nf ns. open_figs st' = open_figs st @ nf \<and> saved st' = saved st @ ns
        \<and> distinct nf \<and> set nf \<inter> set (open_figs st) = {}
        \<and> distinct (map (\<lambda>s. number (fig s)) ns)
        \<and> set (map (\<lambda>s. number (fig s)) ns) \<subseteq> set nf"
  then obtain nf ns where "open_figs st' = open_figs st @ nf" and "saved st' = saved st @ ns"
    and "distinct nf" and "set nf \<inter> set (open_figs st) = {}"
    and "distinct (map (\<lambda>s. number (fig s)) ns)"
    and "set (map (\<lambda>s. number (fig s)) ns) \<subseteq> set nf" by blast
  then show "drawn_apart st st'"
    by (simp add: drawn_apart_def Let_def)
qed

lemma fresh_number: "(if xs = [] then 1 else Max (set xs) + 1) \<notin> set (xs :: nat list)"
proof (cases "xs = []")
  case True
  then show ?thesis by simp
next
  case False
  have "Max (set xs) + 1 \<notin> set xs"
  proof
    assume "Max (set xs) + 1 \<in> set xs"
    then have "Max (set xs) + 1 \<le> Max (set xs)" by (intro Max_ge) simp_all
    then show False by simp
  qed
  then show ?thesis using False by simp
qed

lemma add_cbar_number: "add_cbar f d lbl = Inr f' \<Longrightarrow> number f' = number f"
  by (auto simp: add_cbar_def Let_def split: sum.splits)

lemma process_channel_drawn_apart:
  assumes "process_channel e out file kc st = (r, st')"
  shows "drawn_apart st st'"
proof -
  obtain key ch where kc: "kc = (key, ch)" by (cases kc)
  define n where "n = (if open_figs st = [] then 1 else Max (set (open_figs st)) + 1)"
  have fresh: "n \<notin> set (open_figs st)" unfolding n_def by (rule fresh_number)
  have "(open_figs st' = open_figs st \<and> saved st' = saved st)
      \<or> (open_figs st' = open_figs st @ [n] \<and> saved st' = saved st)
      \<or> (\<exists>s. open_figs st' = open_figs st @ [n] \<and> saved st' = saved st @ [s] \<and> number (fig s) = n)"
    using assms unfolding kc
    by (auto simp: process_channel_def subplots_def savefig_def add_scalebar_def Let_def
          n_def [symmetric] dest!: add_cbar_number split: option.splits sum.splits)
  then show ?thesis using fresh unfolding drawn_apart_iff by auto
qed

lemma drawn_apart_trans:
  assumes "drawn_apart a b" and "drawn_apart b c"
  shows "drawn_apart a c"
proof -
  from assms(1) obtain nf1 ns1 where
    1: "open_figs b = open_figs a @ nf1" "saved b = saved a @ ns1" "distinct nf1"
       "set nf1 \<inter> set (open_figs a) = {}" "distinct (map (\<lambda>s. number (fig s)) ns1)"
       "set (map (\<lambda>s. number (fig s)) ns1) \<subseteq> set nf1"
    unfolding drawn_apart_iff by blast
  from assms(2) obtain nf2 ns2 where
    2: "open_figs c = open_figs b @ nf2" "saved c = saved b @ ns2" "distinct nf2"
       "set nf2 \<inter> set (open_figs b) = {}" "distinct (map (\<lambda>s. number (fig s)) ns2)"
       "set (map (\<lambda>s. number (fig s)) ns2) \<subseteq> set nf2"
    unfolding drawn_apart_iff by blast
  have d: "set nf1 \<inter> set nf2 = {}" using 2(4) 1(1) by auto
  have "open_figs c = open_figs a @ (nf1 @ nf2)" using 1(1) 2(1) by simp
  moreover have "saved c = saved a @ (ns1 @ ns2)" using 1(2) 2(2) by simp
  moreover have "distinct (nf1 @ nf2)" using 1(3) 2(3) d by simp
  moreover have "set (nf1 @ nf2) \<inter> set (open_figs a) = {}" using 1(1,4) 2(4) by auto
  moreover have "distinct (map (\<lambda>s. number (fig s)) (ns1 @ ns2))"
    using 1(5,6) 2(5,6) d by auto
  moreover have "set (map (\<lambda>s. number (fig s)) (ns1 @ ns2)) \<subseteq> set (nf1 @ nf2)"
    using 1(6) 2(6) by auto
  ultimately show ?thesis unfolding drawn_apart_iff by blast
qed

text \<open>
  Claim C8, as the script has it. Every image is drawn on a figure opened for it, with a
  number that no figure open before has and that no other image of the run shares. The
  script never closes a figure: every figure open before the run or opened by it is still
  open when the run ends.
\<close>

theorem figures_fresh_and_left_open:
  "drawn_apart st (snd (process_gwy_files e st))"
proof (rule process_gwy_files_rel)
  show "drawn_apart s s" for s by (simp add: drawn_apart_def)
  show "drawn_apart a c" if "drawn_apart a b" and "drawn_apart b c" for a b c
    using that by (rule drawn_apart_trans)
  show "drawn_apart s s'" if "process_channel e out f kc s = (r, s')" for out f kc s r s'
    using that by (rule process_channel_drawn_apart)
  show "drawn_apart s (print line s)" for line s by (simp add: drawn_apart_def print_def)
  show "drawn_apart s (s\<lparr>made_dirs := made_dirs s @ [p]\<rparr>)" for p s by (simp add: drawn_apart_def)
qed

theorem figures_fresh_and_left_open_witness:
  "drawn_apart init_state (snd (process_gwy_files env_disk_full init_state))
   \<and> open_figs (snd (process_gwy_files env_disk_full init_state)) = [1, 2]
   \<and> map (\<lambda>s. number (fig s)) (saved (snd (process_gwy_files env_disk_full init_state))) = [1]"
  using figures_fresh_and_left_open [of init_state env_disk_full]
  by (simp add: env_disk_full_def run_defs splitext_good)

text \<open>
  Claim C8 as stated fails: after the run over the example directory the figure whose image
  was saved is still in pyplot's registry.
\<close>

theorem figure_released_counterexample:
  "map (\<lambda>s. number (fig s)) (saved (snd (process_gwy_files env_batch init_state))) = [1]
   \<and> open_figs (snd (process_gwy_files env_batch init_state)) = [1]"
  by (simp add: env_batch_def run_defs splitext_good)

subsection \<open>Names of the images\<close>

lemma endswith_iff: "endswith s suf \<longleftrightarrow> (\<exists>pre. s = pre @ suf)"
proof
  assume "endswith s suf"
  then have "s = take (length s - length suf) s @ suf"
    using append_take_drop_id [of "length s - length suf" s] by (simp add: endswith_def)
  then show "\<exists>pre. s = pre @ suf" ..
next
  assume "\<exists>pre. s = pre @ suf"
  then show "endswith s suf" by (auto simp: endswith_def)
qed

lemma rfind_absent: "c \<notin> set s \<Longrightarrow> rfind c s = - 1"
  by (induction s) (auto simp: Let_def)

lemma rfind_last: "c \<notin> set ys \<Longrightarrow> rfind c (xs @ c # ys) = int (length xs)"
  by (induction xs) (simp_all add: Let_def rfind_absent)

lemma splitext_scan_name:
  assumes "CHR ''/'' \<notin> set b" and "\<exists>c \<in> set b. c \<noteq> CHR ''.''"
  shows "splitext (b @ ''.gwy'') = (b, ''.gwy'')"
proof -
  have sep: "rfind CHR ''/'' (b @ ''.gwy'') = - 1"
    using assms(1) by (intro rfind_absent) simp
  have dot: "rfind CHR ''.'' (b @ ''.gwy'') = int (length b)"
    using rfind_last [of "CHR ''.''" "''gwy''" b] by simp
  from assms(2) obtain i where i: "i < length b" "b ! i \<noteq> CHR ''.''"
    by (auto simp: in_set_conv_nth)
  then have "list_ex (\<lambda>i. (b @ ''.gwy'') ! i \<noteq> CHR ''.'') [0 ..< length b]"
    unfolding list_ex_iff by (auto simp: nth_append intro!: bexI [of _ i])
  then show ?thesis
    unfolding splitext_def sep dot Let_def by simp
qed

lemma path_join_name:
  assumes "CHR ''/'' \<notin> set b"
  shows "path_join out (b @ CHR ''.'' # t) =
           (if out = [] \<or> last out = CHR ''/'' then out else out @ ''/'') @ b @ CHR ''.'' # t"
  using assms by (cases b) (auto simp: path_join_def)

lemma table_key_cases:
  "k \<in> set (map fst params) \<Longrightarrow> k = ''ZSensor'' \<or> k = ''Peak Force Error'' \<or> k = ''Potential''"
  by (auto simp: params_def)

lemma stem_key_inj:
  assumes "k1 \<in> set (map fst params)" and "k2 \<in> set (map fst params)"
      and "b1 @ CHR ''.'' # k1 = b2 @ CHR ''.'' # k2"
  shows "b1 = b2 \<and> k1 = k2"
proof -
  have r: "rev k1 @ CHR ''.'' # rev b1 = rev k2 @ CHR ''.'' # rev b2"
    using arg_cong [OF assms(3), of rev] by simp
  from table_key_cases [OF assms(1)] table_key_cases [OF assms(2)] have "k1 = k2"
    using r by (elim disjE) simp_all
  then show ?thesis using assms(3) by simp
qed

text \<open>
  Claim C5, as the script has it. For a scan whose name has a character other than a dot
  before the final \<open>.gwy\<close> (and, being a directory entry, no slash), the image of a channel
  is the file of the output directory named by the stem, a dot, the key and \<open>.png\<close>; two
  such scans and two keys of the table give the same path only when the scans and the keys
  are the same.
\<close>

theorem output_paths_distinct:
  assumes "CHR ''/'' \<notin> set b1" and "CHR ''/'' \<notin> set b2"
      and "\<exists>c \<in> set b1. c \<noteq> CHR ''.''" and "\<exists>c \<in> set b2. c \<noteq> CHR ''.''"
      and "k1 \<in> set (map fst params)" and "k2 \<in> set (map fst params)"
  shows "endswith (b1 @ ''.gwy'') ''.gwy''
       \<and> output_path output_folder (b1 @ ''.gwy'') k1 = path_join output_folder (b1 @ ''.'' @ k1 @ ''.png'')
       \<and> (output_path output_folder (b1 @ ''.gwy'') k1 = output_path output_folder (b2 @ ''.gwy'') k2
            \<longleftrightarrow> b1 @ ''.gwy'' = b2 @ ''.gwy'' \<and> k1 = k2)"
proof -
  have e: "endswith (b1 @ ''.gwy'') ''.gwy''" unfolding endswith_iff by blast
  have p1: "output_path output_folder (b1 @ ''.gwy'') k1 = path_join output_folder (b1 @ ''.'' @ k1 @ ''.png'')"
    by (simp add: output_path_def splitext_scan_name [OF assms(1,3)])
  have p2: "output_path output_folder (b2 @ ''.gwy'') k2 = path_join output_folder (b2 @ ''.'' @ k2 @ ''.png'')"
    by (simp add: output_path_def splitext_scan_name [OF assms(2,4)])
  have "b1 = b2 \<and> k1 = k2"
    if "output_path output_folder (b1 @ ''.gwy'') k1 = output_path output_folder (b2 @ ''.gwy'') k2"
  proof -
    from that have "b1 @ CHR ''.'' # (k1 @ ''.png'') = b2 @ CHR ''.'' # (k2 @ ''.png'')"
      unfolding p1 p2 using path_join_name [OF assms(1), of output_folder "k1 @ ''.png''"]
        path_join_name [OF assms(2), of output_folder "k2 @ ''.png''"] by simp
    then have "(b1 @ CHR ''.'' # k1) @ ''.png'' = (b2 @ CHR ''.'' # k2) @ ''.png''" by simp
    then have "b1 @ CHR ''.'' # k1 = b2 @ CHR ''.'' # k2" by (simp only: append_same_eq)
    from stem_key_inj [OF assms(5,6) this] show ?thesis .
  qed
  then have "output_path output_folder (b1 @ ''.gwy'') k1 = output_path output_folder (b2 @ ''.gwy'') k2
            \<longleftrightarrow> b1 @ ''.gwy'' = b2 @ ''.gwy'' \<and> k1 = k2"
    by auto
  then show ?thesis using e p1 by blast
qed

theorem output_paths_distinct_witness:
  "CHR ''/'' \<notin> set ''scan.0'' \<and> CHR ''/'' \<notin> set ''scan''
   \<and> CHR ''n'' \<in> set ''scan.0'' \<and> CHR ''n'' \<noteq> CHR ''.'' \<and> CHR ''n'' \<in> set ''scan''
   \<and> ''ZSensor'' \<in> set (map fst params) \<and> ''Potential'' \<in> set (map fst params)
   \<and> output_path ''/data/processed_images'' (''scan.0'' @ ''.gwy'') ''ZSensor''
        = ''/data/processed_images/scan.0.ZSensor.png''
   \<and> output_path ''/data/processed_images'' (''scan.0'' @ ''.gwy'') ''ZSensor''
        \<noteq> output_path ''/data/processed_images'' (''scan'' @ ''.gwy'') ''Potential''"
proof -
  have h1: "CHR ''/'' \<notin> set ''scan.0''" and h2: "CHR ''/'' \<notin> set ''scan''" by simp_all
  have h3: "\<exists>c \<in> set ''scan.0''. c \<noteq> CHR ''.''" and h4: "\<exists>c \<in> set ''scan''. c \<noteq> CHR ''.''" by simp_all
  have h5: "''ZSensor'' \<in> set (map fst params)" and h6: "''Potential'' \<in> set (map fst params)"
    by (simp_all add: params_def)
  note t = output_paths_distinct [OF h1 h2 h3 h4 h5 h6, of "''/data/processed_images''"]
  from t have "output_path ''/data/processed_images'' (''scan.0'' @ ''.gwy'') ''ZSensor''
      = path_join ''/data/processed_images'' (''scan.0'' @ ''.'' @ ''ZSensor'' @ ''.png'')" by blast
  then have p: "output_path ''/data/processed_images'' (''scan.0'' @ ''.gwy'') ''ZSensor''
      = ''/data/processed_images/scan.0.ZSensor.png''" by (simp add: path_join_def)
  from t have "output_path ''/data/processed_images'' (''scan.0'' @ ''.gwy'') ''ZSensor''
        = output_path ''/data/processed_images'' (''scan'' @ ''.gwy'') ''Potential''
      \<longleftrightarrow> ''scan.0'' @ ''.gwy'' = ''scan'' @ ''.gwy'' \<and> ''ZSensor'' = ''Potential''" by blast
  then have q: "output_path ''/data/processed_images'' (''scan.0'' @ ''.gwy'') ''ZSensor''
        \<noteq> output_path ''/data/processed_images'' (''scan'' @ ''.gwy'') ''Potential''" by simp
  have n: "CHR ''n'' \<in> set ''scan.0'' \<and> CHR ''n'' \<noteq> CHR ''.'' \<and> CHR ''n'' \<in> set ''scan''" by simp
  from h1 h2 n h5 h6 p q show ?thesis by blast
qed

text \<open>
  Claim C5 as stated fails: \<open>splitext\<close> leaves a name made of dots and \<open>gwy\<close> as it is, so
  the scans \<open>.gwy\<close> and \<open>.gwy.gwy\<close> have the same base name, and the images of their
  height channels are written to the same path.
\<close>

theorem output_paths_collide_counterexample:
  "filter (\<lambda>f. endswith f ''.gwy'') (listdir env_dotfiles) = [''.gwy'', ''.gwy.gwy'']
   \<and> recognized_pairs env_dotfiles [''.gwy'', ''.gwy.gwy''] = [(''.gwy'', ''ZSensor''), (''.gwy.gwy'', ''ZSensor'')]
   \<and> map path (saved (snd (process_gwy_files env_dotfiles init_state)))
       = [''/data/processed_images/.gwy.ZSensor.png'', ''/data/processed_images/.gwy.ZSensor.png'']"
proof -
  have a: "splitext ''.gwy'' = (''.gwy'', [])"
    by (simp add: splitext_def Let_def)
  have b: "splitext ''.gwy.gwy'' = (''.gwy'', ''.gwy'')"
    by (simp add: splitext_def Let_def upt_conv_Cons)
  show ?thesis
    by (simp add: env_dotfiles_def run_defs a b recognized_pairs_def)
qed

end
